theory Spec2Isabelle
  imports Main
begin

section \<open>Python values and dictionaries\<close>

datatype scalar = PBool bool | PInt int | PStr string | PNone

datatype pyval = Scalar scalar | PList "pyval list"

type_synonym 'v dict = "(string \<times> 'v) list"

fun is_list :: "pyval \<Rightarrow> bool" where
  "is_list (PList vs) = True"
| "is_list (Scalar s) = False"

fun dict_set :: "string \<Rightarrow> 'v \<Rightarrow> 'v dict \<Rightarrow> 'v dict" where
  "dict_set k v [] = [(k, v)]"
| "dict_set k v ((k', v') # d) =
     (if k' = k then (k, v) # d else (k', v') # dict_set k v d)"

section \<open>expcore.explode\<close>

fun first_list :: "pyval dict \<Rightarrow> (pyval dict \<times> string \<times> pyval list \<times> pyval dict) option" where
  "first_list [] = None"
| "first_list ((flag, PList vs) # rest) = Some ([], flag, vs, rest)"
| "first_list ((flag, Scalar s) # rest) =
     (case first_list rest of
        None \<Rightarrow> None
      | Some (pre, f, vs, post) \<Rightarrow> Some ((flag, Scalar s) # pre, f, vs, post))"

definition dict_weight :: "pyval dict \<Rightarrow> nat" where
  "dict_weight d = sum_list (map (\<lambda>(k, v). size v) d)"

lemma first_list_split:
  "first_list d = Some (pre, flag, vs, post) \<Longrightarrow> d = pre @ (flag, PList vs) # post"
proof (induction d arbitrary: pre rule: first_list.induct)
  case 1
  then show ?case by simp
next
  case (2 flag vs rest)
  then show ?case by simp
next
  case (3 flag s rest)
  then show ?case by (auto split: option.splits)
qed

lemma size_member_PList: "arg \<in> set vs \<Longrightarrow> size arg < size (PList vs)"
  by (induction vs) auto

function explode :: "pyval dict \<Rightarrow> pyval dict list" where
  "explode config =
     (case first_list config of
        None \<Rightarrow> [config]
      | Some (pre, flag, value, post) \<Rightarrow>
          (let configs = concat (map (\<lambda>arg. explode (pre @ (flag, arg) # post)) value)
           in if configs = [] then [config] else configs))"
  by pat_completeness auto
termination
proof (relation "measure dict_weight")
  show "wf (measure dict_weight)" by simp
next
  fix config :: "pyval dict" and x2 pre y flag ya "value" post arg
  assume "first_list config = Some x2" "(pre, y) = x2" "(flag, ya) = y" "(value, post) = ya"
    and mem: "arg \<in> set value"
  then have "first_list config = Some (pre, flag, value, post)" by simp
  then have "config = pre @ (flag, PList value) # post" by (rule first_list_split)
  with size_member_PList [OF mem]
  show "(pre @ (flag, arg) # post, config) \<in> measure dict_weight"
    by (simp add: dict_weight_def)
qed

declare explode.simps [simp del]


subsection \<open>The Cartesian product the specification describes\<close>

text \<open>The values a field can take in a produced configuration: the elements of a list,
  or the scalar itself.\<close>

fun options :: "pyval \<Rightarrow> pyval list" where
  "options (PList vs) = vs"
| "options (Scalar s) = [Scalar s]"

text \<open>The sizes \<open>s1..sk\<close> of the list-valued fields, in field order.\<close>

fun list_sizes :: "pyval dict \<Rightarrow> nat list" where
  "list_sizes [] = []"
| "list_sizes ((k, PList vs) # d) = length vs # list_sizes d"
| "list_sizes ((k, Scalar s) # d) = list_sizes d"

text \<open>A combination chooses one position in every field's options.\<close>

definition index_choices :: "pyval dict \<Rightarrow> nat list list" where
  "index_choices d = product_lists (map (\<lambda>(k, v). [0..<length (options v)]) d)"

fun pick :: "pyval dict \<Rightarrow> nat list \<Rightarrow> pyval dict" where
  "pick ((k, v) # d) (i # is) = (k, options v ! i) # pick d is"
| "pick d is = []"

text \<open>\<open>is_choice d c\<close>: \<open>c\<close> has the fields of \<open>d\<close>, in order, each holding one of
  the options of that field.\<close>

definition is_choice :: "pyval dict \<Rightarrow> pyval dict \<Rightarrow> bool" where
  "is_choice d c = list_all2 (\<lambda>(k, v) (k', v'). k' = k \<and> v' \<in> set (options v)) d c"

definition cartesian :: "pyval dict \<Rightarrow> pyval dict list" where
  "cartesian d = map (zip (map fst d)) (product_lists (map (\<lambda>(k, v). options v) d))"

text \<open>The inputs on which the product is read off the lists directly: every list-valued
  field is a non-empty list of scalars.\<close>

definition flat_lists :: "pyval dict \<Rightarrow> bool" where
  "flat_lists d = list_all (\<lambda>(k, v). case v of
       PList vs \<Rightarrow> vs \<noteq> [] \<and> list_all (\<lambda>x. \<not> is_list x) vs
     | Scalar s \<Rightarrow> True) d"

definition all_scalar :: "pyval dict \<Rightarrow> bool" where
  "all_scalar d = list_all (\<lambda>(k, v). \<not> is_list v) d"

section \<open>Properties of explode\<close>

lemma explode_nonempty: "explode config \<noteq> []"
  by (subst explode.simps) (auto split: option.splits simp: Let_def)

lemma first_list_None: "first_list d = None \<longleftrightarrow> all_scalar d"
  by (induction d rule: first_list.induct) (auto simp: all_scalar_def split: option.splits)

lemma first_list_pre: "first_list d = Some (pre, flag, vs, post) \<Longrightarrow> all_scalar pre"
proof (induction d arbitrary: pre rule: first_list.induct)
  case 1
  then show ?case by simp
next
  case (2 flag vs rest)
  then show ?case by (simp add: all_scalar_def)
next
  case (3 flag s rest)
  then show ?case by (auto simp: all_scalar_def split: option.splits)
qed

lemma cartesian_Nil: "cartesian [] = [[]]"
  by (simp add: cartesian_def)

lemma cartesian_Cons:
  "cartesian ((k, v) # d) = concat (map (\<lambda>x. map (Cons (k, x)) (cartesian d)) (options v))"
  by (simp add: cartesian_def map_concat comp_def)

lemma cartesian_all_scalar: "all_scalar d \<Longrightarrow> cartesian d = [d]"
proof (induction d)
  case Nil
  then show ?case by (simp add: cartesian_Nil)
next
  case (Cons kv d)
  obtain k v where kv: "kv = (k, v)" by (cases kv)
  from Cons.prems kv obtain s where v: "v = Scalar s"
    by (cases v) (auto simp: all_scalar_def)
  from Cons.prems have "all_scalar d" by (simp add: all_scalar_def)
  with Cons.IH have "cartesian d = [d]" .
  with kv v show ?case by (simp add: cartesian_Cons)
qed

lemma cartesian_split:
  assumes "all_scalar pre" and "list_all (\<lambda>x. \<not> is_list x) vs"
  shows "cartesian (pre @ (flag, PList vs) # post) =
         concat (map (\<lambda>arg. cartesian (pre @ (flag, arg) # post)) vs)"
  using assms(1)
proof (induction pre)
  case Nil
  have "map (\<lambda>x. map (Cons (flag, x)) (cartesian post)) vs =
        map (\<lambda>arg. cartesian ((flag, arg) # post)) vs"
  proof (rule map_cong [OF refl])
    fix x assume "x \<in> set vs"
    with assms(2) obtain s where "x = Scalar s"
      by (cases x) (auto simp: list_all_iff)
    then show "map (Cons (flag, x)) (cartesian post) = cartesian ((flag, x) # post)"
      by (simp add: cartesian_Cons)
  qed
  then have "concat (map (\<lambda>x. map (Cons (flag, x)) (cartesian post)) vs) =
        concat (map (\<lambda>arg. cartesian ((flag, arg) # post)) vs)"
    by (rule arg_cong)
  then show ?case by (simp only: cartesian_Cons options.simps append_Nil)
next
  case (Cons kv pre)
  obtain k v where kv: "kv = (k, v)" by (cases kv)
  from Cons.prems kv obtain s where v: "v = Scalar s"
    by (cases v) (auto simp: all_scalar_def)
  from Cons.prems have "all_scalar pre" by (simp add: all_scalar_def)
  with Cons.IH have IH: "cartesian (pre @ (flag, PList vs) # post) =
      concat (map (\<lambda>arg. cartesian (pre @ (flag, arg) # post)) vs)" .
  show ?case
    by (simp add: kv v cartesian_Cons IH map_concat comp_def)
qed

lemma flat_lists_replace:
  assumes "flat_lists (pre @ (flag, PList vs) # post)" and "arg \<in> set vs"
  shows "flat_lists (pre @ (flag, arg) # post)"
proof -
  from assms obtain s where "arg = Scalar s"
    by (cases arg) (auto simp: flat_lists_def list_all_iff)
  with assms(1) show ?thesis by (simp add: flat_lists_def)
qed

lemma explode_cartesian: "flat_lists config \<Longrightarrow> explode config = cartesian config"
proof (induction config rule: explode.induct)
  case (1 config)
  show ?case
  proof (cases "first_list config")
    case None
    then have "all_scalar config" by (simp add: first_list_None)
    then have "cartesian config = [config]" by (rule cartesian_all_scalar)
    with None show ?thesis by (subst explode.simps) simp
  next
    case (Some r)
    obtain pre flag vs post where r: "r = (pre, flag, vs, post)" by (cases r)
    with Some have fl: "first_list config = Some (pre, flag, vs, post)" by simp
    then have cfg: "config = pre @ (flag, PList vs) # post" by (rule first_list_split)
    from fl have pre: "all_scalar pre" by (rule first_list_pre)
    from "1.prems" cfg have vs: "vs \<noteq> []" "list_all (\<lambda>x. \<not> is_list x) vs"
      by (simp_all add: flat_lists_def)
    have step: "explode (pre @ (flag, arg) # post) = cartesian (pre @ (flag, arg) # post)"
      if "arg \<in> set vs" for arg
    proof (rule "1.IH" [OF fl refl refl refl that])
      from "1.prems" cfg that show "flat_lists (pre @ (flag, arg) # post)"
        by (auto intro: flat_lists_replace)
    qed
    have eq: "map (\<lambda>arg. explode (pre @ (flag, arg) # post)) vs =
          map (\<lambda>arg. cartesian (pre @ (flag, arg) # post)) vs"
      by (rule map_cong [OF refl]) (rule step)
    from vs(1) obtain a as where "vs = a # as" by (cases vs) auto
    then have ne: "concat (map (\<lambda>arg. explode (pre @ (flag, arg) # post)) vs) \<noteq> []"
      by (simp add: explode_nonempty)
    have "explode config = concat (map (\<lambda>arg. explode (pre @ (flag, arg) # post)) vs)"
      using fl ne by (subst explode.simps) (auto simp: Let_def)
    also have "\<dots> = concat (map (\<lambda>arg. cartesian (pre @ (flag, arg) # post)) vs)"
      by (simp only: eq)
    also have "\<dots> = cartesian config"
      unfolding cfg by (rule cartesian_split [OF pre vs(2), symmetric])
    finally show ?thesis .
  qed
qed


lemma length_cartesian: "length (cartesian d) = prod_list (list_sizes d)"
proof -
  have "prod_list (map (\<lambda>(k, v). length (options v)) d) = prod_list (list_sizes d)"
    by (induction d rule: list_sizes.induct) simp_all
  then show ?thesis
    by (simp add: cartesian_def length_product_lists prod_list.eq_foldr comp_def case_prod_unfold)
qed

lemma index_choices_Cons:
  "index_choices ((k, v) # d) =
     concat (map (\<lambda>i. map (Cons i) (index_choices d)) [0..<length (options v)])"
  by (simp add: index_choices_def)

lemma cartesian_pick: "cartesian d = map (pick d) (index_choices d)"
proof (induction d)
  case Nil
  then show ?case by (simp add: cartesian_Nil index_choices_def)
next
  case (Cons kv d)
  obtain k v where kv: "kv = (k, v)" by (cases kv)
  have "concat (map (\<lambda>x. map (Cons (k, x)) (cartesian d)) (options v)) =
        concat (map (\<lambda>x. map (Cons (k, x)) (cartesian d))
          (map (\<lambda>i. options v ! i) [0..<length (options v)]))"
    by (simp only: map_nth)
  also have "\<dots> = map (pick ((k, v) # d)) (index_choices ((k, v) # d))"
    by (simp add: index_choices_Cons map_concat comp_def Cons.IH)
  finally show ?case by (simp add: kv cartesian_Cons)
qed

lemma distinct_index_choices: "distinct (index_choices d)"
  unfolding index_choices_def by (rule distinct_product_lists) auto

lemma set_cartesian: "set (cartesian d) = {c. is_choice d c}"
proof (induction d)
  case Nil
  then show ?case by (simp add: cartesian_Nil is_choice_def)
next
  case (Cons kv d)
  obtain k v where kv: "kv = (k, v)" by (cases kv)
  have "is_choice ((k, v) # d) c \<longleftrightarrow>
        (\<exists>x c'. c = (k, x) # c' \<and> x \<in> set (options v) \<and> is_choice d c')" for c
    by (cases c) (auto simp: is_choice_def)
  with Cons.IH show ?case
    by (auto simp: kv cartesian_Cons)
qed

lemma is_choice_all_scalar:
  assumes "flat_lists d" and "is_choice d c"
  shows "all_scalar c"
  using assms(2) assms(1) unfolding is_choice_def
proof (induction rule: list_all2_induct)
  case Nil
  then show ?case by (simp add: all_scalar_def)
next
  case (Cons x xs y ys)
  obtain k v where x: "x = (k, v)" by (cases x)
  obtain k' v' where y: "y = (k', v')" by (cases y)
  from Cons.prems have "flat_lists xs" by (simp add: flat_lists_def)
  with Cons.IH have "all_scalar ys" .
  moreover from Cons.hyps(1) Cons.prems x y have "\<not> is_list v'"
    by (cases v) (auto simp: flat_lists_def list_all_iff)
  ultimately show ?case by (simp add: all_scalar_def y)
qed

subsection \<open>Concrete configurations\<close>

definition example_config :: "pyval dict" where
  "example_config =
     [(''a'', PList [Scalar (PInt 1), Scalar (PInt 2)]),
      (''b'', Scalar (PStr ''x'')),
      (''c'', PList [Scalar (PBool True), Scalar (PBool False)])]"

definition nested_config :: "pyval dict" where
  "nested_config =
     [(''a'', PList [PList [Scalar (PInt 1), Scalar (PInt 2)], Scalar (PInt 3)])]"

definition empty_list_config :: "pyval dict" where
  "empty_list_config = [(''a'', PList []), (''b'', PList [Scalar (PInt 1), Scalar (PInt 2)])]"

text \<open>
  C1 (as amended). For every configuration whose list-valued fields are non-empty lists
  of scalars, with sizes \<open>s1..sk\<close>: \<open>explode\<close> returns exactly \<open>s1 * ... * sk\<close>
  configurations; the produced configurations are exactly those that keep the field
  sequence and hold, in place of every list, one of its elements; they are all scalar; the
  result lists the combinations (one position chosen per field) in order, each at exactly
  one place; and a configuration without list-valued fields, the empty one included, is
  returned alone and unchanged.
\<close>

theorem explode_product:
  assumes "flat_lists config"
  shows "length (explode config) = prod_list (list_sizes config)
       \<and> set (explode config) = {c. is_choice config c}
       \<and> (\<forall>c \<in> set (explode config). all_scalar c)
       \<and> explode config = map (pick config) (index_choices config)
       \<and> distinct (index_choices config)
       \<and> (all_scalar config \<longrightarrow> explode config = [config])
       \<and> explode [] = [[]]"
proof -
  from assms have eq: "explode config = cartesian config" by (rule explode_cartesian)
  have 1: "length (explode config) = prod_list (list_sizes config)"
    by (simp only: eq length_cartesian)
  have 2: "set (explode config) = {c. is_choice config c}"
    by (simp only: eq set_cartesian)
  have 3: "\<forall>c \<in> set (explode config). all_scalar c"
    using assms by (auto simp: 2 intro: is_choice_all_scalar)
  have 4: "explode config = map (pick config) (index_choices config)"
    by (simp only: eq cartesian_pick)
  have 5: "all_scalar config \<longrightarrow> explode config = [config]"
    by (simp add: eq cartesian_all_scalar)
  have 6: "explode [] = [[]]"
    by (subst explode.simps) simp
  from 1 2 3 4 distinct_index_choices 5 6 show ?thesis by blast
qed

theorem explode_product_witness:
  "flat_lists example_config
   \<and> length (explode example_config) = 4
   \<and> explode example_config =
       [[(''a'', Scalar (PInt 1)), (''b'', Scalar (PStr ''x'')), (''c'', Scalar (PBool True))],
        [(''a'', Scalar (PInt 1)), (''b'', Scalar (PStr ''x'')), (''c'', Scalar (PBool False))],
        [(''a'', Scalar (PInt 2)), (''b'', Scalar (PStr ''x'')), (''c'', Scalar (PBool True))],
        [(''a'', Scalar (PInt 2)), (''b'', Scalar (PStr ''x'')), (''c'', Scalar (PBool False))]]"
proof -
  have h: "flat_lists example_config"
    by (simp add: flat_lists_def example_config_def)
  have "index_choices example_config = [[0, 0, 0], [0, 0, 1], [1, 0, 0], [1, 0, 1]]"
    by (simp add: index_choices_def example_config_def upt_rec)
  with explode_product [OF h] h show ?thesis
    by (simp add: example_config_def)
qed

text \<open>
  C1 as stated fails where a list holds a list (the copies are expanded again: three
  configurations from one list of size two) and where a list is empty (the product is
  zero, the configuration comes back with its lists in place).
\<close>

theorem explode_product_counterexample:
  "explode nested_config =
     [[(''a'', Scalar (PInt 1))], [(''a'', Scalar (PInt 2))], [(''a'', Scalar (PInt 3))]]
   \<and> list_sizes nested_config = [2]
   \<and> explode empty_list_config = [empty_list_config]
   \<and> prod_list (list_sizes empty_list_config) = 0"
  by (simp add: nested_config_def empty_list_config_def explode.simps)


section \<open>Strings, errors and scalar values\<close>

text \<open>An exception leaving a function is a value. \<open>SystemExit msg status\<close> stands for
  \<open>logging.error(msg)\<close> followed by \<open>sys.exit(status)\<close>.\<close>

datatype py_error =
    KeyError string
  | TypeError
  | ValueError string
  | ZeroDivisionError
  | OverflowError
  | SystemExit string int

definition digit_char :: "nat \<Rightarrow> char" where
  "digit_char d = ''0123456789'' ! d"

function str_nat :: "nat \<Rightarrow> string" where
  "str_nat n = (if n < 10 then [digit_char n] else str_nat (n div 10) @ [digit_char (n mod 10)])"
  by pat_completeness auto
termination
  by (relation "measure id") auto

declare str_nat.simps [simp del]

definition str_int :: "int \<Rightarrow> string" where
  "str_int i = (if i < 0 then CHR ''-'' # str_nat (nat (- i)) else str_nat (nat i))"

text \<open>\<open>str(value)\<close>, which is also what an f-string writes for \<open>{value}\<close>.\<close>

fun py_str :: "scalar \<Rightarrow> string" where
  "py_str (PBool b) = (if b then ''True'' else ''False'')"
| "py_str (PInt i) = str_int i"
| "py_str (PStr s) = s"
| "py_str PNone = ''None''"

text \<open>\<open>isinstance(value, bool)\<close>.\<close>

fun is_bool :: "scalar \<Rightarrow> bool" where
  "is_bool (PBool b) = True"
| "is_bool v = False"


definition dict_get :: "'v dict \<Rightarrow> string \<Rightarrow> 'v option" where
  "dict_get d k = map_of d k"

definition dict_pop :: "string \<Rightarrow> 'v dict \<Rightarrow> 'v dict" where
  "dict_pop k d = filter (\<lambda>(k', v). k' \<noteq> k) d"


section \<open>expcore.params_to_flags\<close>

fun params_to_flags_loop :: "string list \<Rightarrow> scalar dict \<Rightarrow> string list" where
  "params_to_flags_loop flags [] = flags"
| "params_to_flags_loop flags ((flag, value) # rest) =
     (let dash = ''-'';
          dash = (if length flag > 1 then dash @ ''-'' else dash)
      in if is_bool value
         then (if value = PBool True
               then params_to_flags_loop (flags @ [dash @ flag]) rest
               else params_to_flags_loop flags rest)
         else params_to_flags_loop ((flags @ [dash @ flag]) @ [py_str value]) rest)"

definition params_to_flags :: "scalar dict \<Rightarrow> string list" where
  "params_to_flags params = params_to_flags_loop [] params"

subsection \<open>The rendering rule of the specification\<close>

definition dashed :: "string \<Rightarrow> string" where
  "dashed flag = (if length flag > 1 then ''--'' @ flag else ''-'' @ flag)"

fun render_field :: "string \<times> scalar \<Rightarrow> string list" where
  "render_field (flag, PBool True) = [dashed flag]"
| "render_field (flag, PBool False) = []"
| "render_field (flag, v) = [dashed flag, py_str v]"

lemma render_field_other: "\<not> is_bool v \<Longrightarrow> render_field (flag, v) = [dashed flag, py_str v]"
  by (cases v) simp_all

lemma params_to_flags_loop_render:
  "params_to_flags_loop flags params = flags @ concat (map render_field params)"
proof (induction params arbitrary: flags)
  case Nil
  then show ?case by simp
next
  case (Cons fv params)
  obtain flag v where fv: "fv = (flag, v)" by (cases fv)
  show ?case
  proof (cases v)
    case (PBool b)
    with Cons.IH show ?thesis by (cases b) (simp_all add: fv Let_def dashed_def)
  next
    case (PInt i)
    with Cons.IH show ?thesis by (simp add: fv Let_def dashed_def)
  next
    case (PStr t)
    with Cons.IH show ?thesis by (simp add: fv Let_def dashed_def)
  next
    case PNone
    with Cons.IH show ?thesis by (simp add: fv Let_def dashed_def)
  qed
qed

text \<open>
  C4 (as amended). For every scalar configuration mapping, the flags are the fields
  rendered one after the other: a true boolean as the bare flag, a false boolean as
  nothing, any other value as the flag and then \<open>str(value)\<close> as a token of its own; a
  one-character name gets one dash, a longer name two. So \<open>{k: "v"}\<close> gives
  \<open>["-k", "v"]\<close>.
\<close>

theorem params_to_flags_render:
  "params_to_flags params = concat (map render_field params)
   \<and> (length flag = 1 \<longrightarrow> dashed flag = CHR ''-'' # flag)
   \<and> (length flag > 1 \<longrightarrow> dashed flag = CHR ''-'' # CHR ''-'' # flag)
   \<and> render_field (flag, PBool True) = [dashed flag]
   \<and> render_field (flag, PBool False) = []
   \<and> (\<not> is_bool v \<longrightarrow> render_field (flag, v) = [dashed flag, py_str v])"
  by (simp add: params_to_flags_def params_to_flags_loop_render dashed_def render_field_other)

theorem params_to_flags_render_witness:
  "params_to_flags [(''verbose'', PBool True)] = [''--verbose'']
   \<and> params_to_flags [(''verbose'', PBool False)] = []
   \<and> params_to_flags [(''k'', PStr ''v'')] = [''-k'', ''v'']
   \<and> params_to_flags [(''x'', PInt 5)] = [''-x'', ''5'']"
proof -
  have 5: "str_int 5 = ''5''"
    by (simp add: str_int_def str_nat.simps digit_char_def)
  show ?thesis
    using params_to_flags_render [of "[(''verbose'', PBool True)]" "''verbose''" "PBool True"]
      params_to_flags_render [of "[(''verbose'', PBool False)]" "''verbose''" "PBool False"]
      params_to_flags_render [of "[(''k'', PStr ''v'')]" "''k''" "PStr ''v''"]
      params_to_flags_render [of "[(''x'', PInt 5)]" "''x''" "PInt 5"]
    by (simp add: dashed_def 5)
qed

text \<open>C4 as stated gives \<open>{k: "v"}\<close> two dashes; the name has one character and gets one.\<close>

theorem params_to_flags_counterexample:
  "params_to_flags [(''k'', PStr ''v'')] = [''-k'', ''v'']
   \<and> params_to_flags [(''k'', PStr ''v'')] \<noteq> [''--k'', ''v'']"
  by (simp add: params_to_flags_def)


section \<open>expcore.DummyInstance\<close>

record dummy_instance =
  di_name_ :: scalar
  di_params :: "scalar dict"

definition DummyInstance_init :: "scalar dict \<Rightarrow> py_error + dummy_instance" where
  "DummyInstance_init kwargs =
     (case dict_get kwargs ''name'' of
        None \<Rightarrow> Inl (KeyError ''name'')
      | Some name \<Rightarrow> Inr \<lparr>di_name_ = name, di_params = dict_pop ''name'' kwargs\<rparr>)"

definition quoted :: "string \<Rightarrow> string" where
  "quoted s = CHR 0x22 # s @ [CHR 0x22]"

fun DummyInstance_args_loop :: "string list \<Rightarrow> scalar dict \<Rightarrow> string list" where
  "DummyInstance_args_loop params [] = params"
| "DummyInstance_args_loop params ((key, value) # rest) =
     (let params = (if key \<noteq> ''nokey'' then params @ [''--'' @ key] else params);
          params = (if \<not> is_bool value then params @ [quoted (py_str value)] else params)
      in DummyInstance_args_loop params rest)"

definition DummyInstance_args :: "dummy_instance \<Rightarrow> int \<Rightarrow> int \<Rightarrow> bool \<Rightarrow> string list" where
  "DummyInstance_args self mpi_rank treeads_per_rank escape =
     DummyInstance_args_loop [] (di_params self)"

text \<open>What one parameter contributes.\<close>

definition dummy_field :: "string \<times> scalar \<Rightarrow> string list" where
  "dummy_field kv =
     (if fst kv \<noteq> ''nokey'' then [''--'' @ fst kv] else []) @
     (if \<not> is_bool (snd kv) then [quoted (py_str (snd kv))] else [])"

lemma DummyInstance_args_loop_fields:
  "DummyInstance_args_loop params d = params @ concat (map dummy_field d)"
  by (induction d arbitrary: params) (auto simp: dummy_field_def Let_def)

text \<open>
  C10 (as amended). The arguments of a SyntheticInput are its parameters rendered one
  after the other. A boolean parameter whose key is not \<open>nokey\<close> gives its flag alone,
  for \<open>True\<close> and for \<open>False\<close>; a non-boolean parameter gives its flag and then its value
  in double quotes; under the key \<open>nokey\<close> a non-boolean parameter gives only its quoted
  value, and a boolean one gives nothing.
\<close>

theorem DummyInstance_args_fields:
  "DummyInstance_args self mpi_rank threads escape = concat (map dummy_field (di_params self))
   \<and> (key \<noteq> ''nokey'' \<longrightarrow> dummy_field (key, PBool b) = [''--'' @ key])
   \<and> (key \<noteq> ''nokey'' \<and> \<not> is_bool v \<longrightarrow>
        dummy_field (key, v) = [''--'' @ key, quoted (py_str v)])
   \<and> (\<not> is_bool v \<longrightarrow> dummy_field (''nokey'', v) = [quoted (py_str v)])
   \<and> dummy_field (''nokey'', PBool b) = []"
  by (simp add: DummyInstance_args_def DummyInstance_args_loop_fields dummy_field_def)

theorem DummyInstance_args_fields_witness:
  "DummyInstance_args \<lparr>di_name_ = PStr ''d'', di_params =
       [(''fast'', PBool False), (''nokey'', PStr ''in.txt''), (''k'', PInt 3)]\<rparr> 4 1 True
     = [''--fast'', quoted ''in.txt'', ''--k'', quoted ''3'']
   \<and> dummy_field (''fast'', PBool True) = [''--fast'']
   \<and> dummy_field (''fast'', PBool False) = [''--fast'']
   \<and> dummy_field (''nokey'', PStr ''in.txt'') = [quoted ''in.txt'']"
proof -
  have 3: "str_int 3 = ''3''"
    by (simp add: str_int_def str_nat.simps digit_char_def)
  show ?thesis
    using DummyInstance_args_fields [of "\<lparr>di_name_ = PStr ''d'', di_params =
         [(''fast'', PBool False), (''nokey'', PStr ''in.txt''), (''k'', PInt 3)]\<rparr>"
         4 1 True "''fast''" True "PStr ''in.txt''"]
      DummyInstance_args_fields [of "\<lparr>di_name_ = PStr ''d'', di_params = []\<rparr>"
         4 1 True "''fast''" False "PStr ''in.txt''"]
    by (simp add: dummy_field_def 3)
qed

text \<open>C10 as stated fails for a boolean under the key \<open>nokey\<close>: neither a flag nor a
  quoted value is written.\<close>

theorem DummyInstance_args_counterexample:
  "DummyInstance_args \<lparr>di_name_ = PStr ''d'', di_params = [(''nokey'', PBool True)]\<rparr> 4 1 True = []"
  by (simp add: DummyInstance_args_def)

section \<open>expcore.FileInputGraph\<close>









section \<open>expcore.KaGenGraph\<close>

subsection \<open>\<open>int(value)\<close> and \<open>1 << k\<close>\<close>











subsection \<open>The class\<close>









subsection \<open>Construction: the direct count and the exponent\<close>







subsection \<open>Derived sizes\<close>




end
